theory Spec2Isabelle
  imports Complex_Main "HOL-Library.AList"
begin

section \<open>Data model\<close>

text \<open>
  A row of the data frame read from \<^verbatim>\<open>Mall_Customers.csv\<close>. The frame \<^verbatim>\<open>df\<close> holds the
  \<^verbatim>\<open>Gender\<close> column as strings; its copy \<^verbatim>\<open>data\<close> holds it encoded, so the row type is
  polymorphic in that column. A missing value (pandas' NaN) is \<open>None\<close>.
\<close>

record 'g Row =
  CustomerID :: int
  Gender :: 'g
  Age :: int
  Annual_Income :: int
  Spending_Score :: int

type_synonym column = "real option list"

datatype error = ValueError | InvalidParameterError | KeyError

section \<open>Preprocessing\<close>

text \<open>
  \<^verbatim>\<open>data['Gender'] = data['Gender'].map({'Male': 0, 'Female': 1})\<close>:
  \<^verbatim>\<open>Series.map\<close> with a dictionary looks every value up; a value that is not a key
  becomes NaN and nothing is raised.
\<close>

definition gender_codes :: "(string \<times> real) list" where
  "gender_codes = [(''Male'', 0), (''Female'', 1)]"

definition encode_gender :: "string \<Rightarrow> real option" where
  "encode_gender g = map_of gender_codes g"

definition encode :: "string Row list \<Rightarrow> real option Row list" where
  "encode df = map (\<lambda>r. \<lparr>CustomerID = CustomerID r, Gender = encode_gender (Gender r),
     Age = Age r, Annual_Income = Annual_Income r, Spending_Score = Spending_Score r\<rparr>) df"












section \<open>The data frames and the output file\<close>

text \<open>
  A data frame of the notebook: the rows read from the input file, and the label columns
  added to it by name, in the order of their first assignment. An added column may hold
  missing values, as a pandas column does.
\<close>

record 'g frame =
  rows :: "'g Row list"
  added :: "(string \<times> int option list) list"

text \<open>
  \<^verbatim>\<open>frame[name] = array\<close>: an array takes the place of the column when it has one value
  per row, and the assignment raises \<^verbatim>\<open>ValueError\<close> otherwise. A new column goes last.
\<close>

definition setitem_array :: "'g frame \<Rightarrow> string \<Rightarrow> int list \<Rightarrow> error + 'g frame" where
  "setitem_array f name vals =
     (if length vals \<noteq> length (rows f) then Inl ValueError
      else Inr (f\<lparr>added := AList.update name (map Some vals) (added f)\<rparr>))"

text \<open>\<^verbatim>\<open>frame[name]\<close>: the column of that name, \<^verbatim>\<open>KeyError\<close> when there is none.\<close>

definition getitem :: "'g frame \<Rightarrow> string \<Rightarrow> error + int option list" where
  "getitem f name = (case map_of (added f) name of None \<Rightarrow> Inl KeyError | Some col \<Rightarrow> Inr col)"

text \<open>
  \<^verbatim>\<open>frame[name] = series\<close>: a series is aligned on the index of the frame. Every frame
  of the notebook has the default index \<open>0, 1, 2, \<dots>\<close>; a row the series has no value for
  gets a missing value, and nothing is raised.
\<close>

definition setitem_series :: "'g frame \<Rightarrow> string \<Rightarrow> int option list \<Rightarrow> 'g frame" where
  "setitem_series f name ser =
     f\<lparr>added := AList.update name
          (map (\<lambda>i. if i < length ser then ser ! i else None) [0..<length (rows f)]) (added f)\<rparr>"

datatype cell = Int_cell int | Str_cell string | NaN_cell

record csv =
  header :: "string list"
  body :: "cell list list"

definition input_columns :: "string list" where
  "input_columns = [''CustomerID'', ''Gender'', ''Age'', ''Annual Income (k$)'',
                    ''Spending Score (1-100)'']"

definition row_cells :: "string Row \<Rightarrow> cell list" where
  "row_cells r = [Int_cell (CustomerID r), Str_cell (Gender r), Int_cell (Age r),
                  Int_cell (Annual_Income r), Int_cell (Spending_Score r)]"

definition cell_of :: "int option \<Rightarrow> cell" where
  "cell_of v = (case v of None \<Rightarrow> NaN_cell | Some n \<Rightarrow> Int_cell n)"

text \<open>\<^verbatim>\<open>frame.to_csv(path, index=False)\<close>: the header line, then one line per row.\<close>

definition to_csv :: "string frame \<Rightarrow> csv" where
  "to_csv f = \<lparr>header = input_columns @ map fst (added f),
               body = map (\<lambda>i. row_cells (rows f ! i) @ map (\<lambda>(name, col). cell_of (col ! i)) (added f))
                        [0..<length (rows f)]\<rparr>"

text \<open>
  The cells that label and save the data, as a function of the frame \<^verbatim>\<open>df\<close> and of the
  two label arrays returned by the clusterers:
  \<^verbatim>\<open>
  data = df.copy();  data['Gender'] = data['Gender'].map(...)
  data['KMeans_Cluster'] = kmeans_labels
  data['DBSCAN_Cluster'] = dbscan_labels
  segmented_data = df.copy()
  segmented_data['KMeans_Cluster'] = data['KMeans_Cluster']
  segmented_data['DBSCAN_Cluster'] = data['DBSCAN_Cluster']
  segmented_data.to_csv('segmented_customers.csv', index=False)
  \<close>
\<close>

definition segmented_data :: "string Row list \<Rightarrow> int list \<Rightarrow> int list \<Rightarrow> error + csv" where
  "segmented_data df kmeans_labels dbscan_labels =
     (let data = \<lparr>rows = encode df, added = []\<rparr> in
      case setitem_array data ''KMeans_Cluster'' kmeans_labels of Inl e \<Rightarrow> Inl e | Inr data1 \<Rightarrow>
      case setitem_array data1 ''DBSCAN_Cluster'' dbscan_labels of Inl e \<Rightarrow> Inl e | Inr data2 \<Rightarrow>
      let seg = \<lparr>rows = df, added = []\<rparr> in
      case getitem data2 ''KMeans_Cluster'' of Inl e \<Rightarrow> Inl e | Inr km \<Rightarrow>
      let seg1 = setitem_series seg ''KMeans_Cluster'' km in
      case getitem data2 ''DBSCAN_Cluster'' of Inl e \<Rightarrow> Inl e | Inr db \<Rightarrow>
      let seg2 = setitem_series seg1 ''DBSCAN_Cluster'' db in
      Inr (to_csv seg2))"

section \<open>Choosing the number of clusters\<close>

text \<open>What the cells print.\<close>

datatype message =
    Optimal_number_of_clusters "nat option"
  | DBSCAN_identified int
  | Silhouette_score real
  | Cannot_calculate_silhouette_score error

definition range_n_clusters :: "nat list" where
  "range_n_clusters = [2..<11]"

text \<open>
  \<^verbatim>\<open>KMeans(n_clusters=k, random_state=seed, n_init=n).fit_predict(X)\<close>. The estimator
  checks its parameters first: \<^verbatim>\<open>n_clusters\<close> has to be an integer of at least 1, and
  \<^verbatim>\<open>None\<close> is rejected. It then draws from the generator that \<^verbatim>\<open>check_random_state\<close>
  gives: a fresh generator seeded with \<^verbatim>\<open>random_state\<close> when that is an integer, the
  global generator of numpy when it is \<^verbatim>\<open>None\<close>. The clustering itself is a parameter
  \<open>run\<close> of the model (generator, count, restarts and data to labels and inertia), and
  so is the constructor \<open>seeded\<close> of a generator from a seed.
\<close>

definition validate_n_clusters :: "nat option \<Rightarrow> error + nat" where
  "validate_n_clusters n_clusters = (case n_clusters of
       None \<Rightarrow> Inl InvalidParameterError
     | Some k \<Rightarrow> if k < 1 then Inl InvalidParameterError else Inr k)"

definition check_random_state :: "(nat \<Rightarrow> 'rng) \<Rightarrow> 'rng \<Rightarrow> nat option \<Rightarrow> 'rng" where
  "check_random_state seeded global_rng random_state = (case random_state of
       None \<Rightarrow> global_rng
     | Some seed \<Rightarrow> seeded seed)"

definition KMeans_fit_predict ::
  "(nat \<Rightarrow> 'rng) \<Rightarrow> ('rng \<Rightarrow> nat \<Rightarrow> nat \<Rightarrow> column list \<Rightarrow> error + int list \<times> real) \<Rightarrow> 'rng \<Rightarrow>
   nat option \<Rightarrow> nat option \<Rightarrow> nat \<Rightarrow> column list \<Rightarrow> error + int list \<times> real" where
  "KMeans_fit_predict seeded run global_rng n_clusters random_state n_init X =
     (case validate_n_clusters n_clusters of
        Inl e \<Rightarrow> Inl e
      | Inr k \<Rightarrow> run (check_random_state seeded global_rng random_state) k n_init X)"

text \<open>
  The loop over \<^verbatim>\<open>range_n_clusters\<close>: each count is fitted with \<^verbatim>\<open>random_state=42\<close> and
  \<^verbatim>\<open>n_init=10\<close>, and its inertia and its silhouette score are appended to \<^verbatim>\<open>wcss\<close> and
  \<^verbatim>\<open>silhouette_scores\<close>. An exception of a fit or of a score ends the loop.
\<close>

fun sweep :: "(nat \<Rightarrow> error + int list \<times> real) \<Rightarrow> (int list \<Rightarrow> error + real) \<Rightarrow> nat list \<Rightarrow>
    error + real list \<times> real list" where
  "sweep fit score [] = Inr ([], [])"
| "sweep fit score (n_clusters # rest) =
     (case fit n_clusters of
        Inl e \<Rightarrow> Inl e
      | Inr (cluster_labels, inertia) \<Rightarrow>
          (case score cluster_labels of
             Inl e \<Rightarrow> Inl e
           | Inr s \<Rightarrow>
               (case sweep fit score rest of
                  Inl e \<Rightarrow> Inl e
                | Inr (wcss, silhouette_scores) \<Rightarrow> Inr (inertia # wcss, s # silhouette_scores))))"

text \<open>
  \<^verbatim>\<open>KneeLocator(x, y, curve="convex", direction="decreasing").elbow\<close>: the Kneedle
  procedure of the \<^verbatim>\<open>kneed\<close> package with its defaults (sensitivity \<open>S = 1\<close>, linear
  interpolation, offline), in exact real arithmetic, for counts \<open>x\<close> in increasing order
  and one value of \<open>y\<close> per count. Both axes are normalised to \<open>[0, 1]\<close>; the curve is
  flipped to \<open>max - y\<close>; the difference curve is the flipped curve minus \<open>x\<close>; its local
  maxima and minima are taken with \<open>\<ge>\<close> and \<open>\<le>\<close> against both neighbours, an end point
  being compared with itself. A curve that is constant normalises to NaN and has no
  local maximum.
\<close>

definition normalize_arr :: "real list \<Rightarrow> real list" where
  "normalize_arr a = map (\<lambda>v. (v - Min (set a)) / (Max (set a) - Min (set a))) a"

definition transform_y :: "real list \<Rightarrow> real list" where
  "transform_y y = map (\<lambda>v. Max (set y) - v) y"

definition y_difference :: "nat list \<Rightarrow> real list \<Rightarrow> real list" where
  "y_difference x y = map2 (-) (transform_y (normalize_arr y)) (normalize_arr (map real x))"

definition argrelextrema :: "(real \<Rightarrow> real \<Rightarrow> bool) \<Rightarrow> real list \<Rightarrow> nat list" where
  "argrelextrema cmp d =
     filter (\<lambda>i. cmp (d ! i) (d ! (i - 1)) \<and> cmp (d ! i) (d ! (min (i + 1) (length d - 1))))
       [0..<length d]"

definition diff :: "real list \<Rightarrow> real list" where
  "diff a = map2 (-) (tl a) a"

definition mean :: "real list \<Rightarrow> real" where
  "mean a = sum_list a / real (length a)"

text \<open>
  The traversal of the difference curve in \<^verbatim>\<open>find_knee\<close>. Points before the first local
  maximum are skipped and the traversal ends at the last point of the curve (normalised
  \<open>x = 1\<close>). A local maximum sets the threshold to its value minus \<open>T\<close> and becomes the
  candidate; a local minimum resets the threshold to 0; the candidate is returned as soon
  as the next value of the curve is below the threshold.
\<close>

fun find_knee :: "real list \<Rightarrow> real list \<Rightarrow> nat list \<Rightarrow> nat list \<Rightarrow> real \<Rightarrow> nat list \<Rightarrow>
    real \<Rightarrow> nat \<Rightarrow> nat option" where
  "find_knee d xn mx mn T [] threshold threshold_index = None"
| "find_knee d xn mx mn T (i # rest) threshold threshold_index =
     (if i < hd mx then find_knee d xn mx mn T rest threshold threshold_index
      else if xn ! i = 1 then None
      else let th1 = (if i \<in> set mx then d ! i - T else threshold);
               ti1 = (if i \<in> set mx then i else threshold_index);
               th2 = (if i \<in> set mn then 0 else th1)
           in if d ! (i + 1) < th2 then Some ti1
              else find_knee d xn mx mn T rest th2 ti1)"

definition KneeLocator_elbow :: "nat list \<Rightarrow> real list \<Rightarrow> nat option" where
  "KneeLocator_elbow x y =
     (if Max (set y) = Min (set y) then None
      else let xn = normalize_arr (map real x);
               d = y_difference x y;
               mx = argrelextrema (\<ge>) d;
               mn = argrelextrema (\<le>) d;
               T = 1 * \<bar>mean (diff xn)\<bar>
           in if mx = [] then None
              else map_option (\<lambda>i. x ! i) (find_knee d xn mx mn T [0..<length d] 0 0))"

text \<open>
  The two K-Means cells. The first one sweeps the counts, asks the locator for the elbow
  and prints it; the second one fits K-Means with that result as its number of clusters:
  \<^verbatim>\<open>
  kl = KneeLocator(range_n_clusters, wcss, curve="convex", direction="decreasing")
  optimal_k = kl.elbow
  print(f"Optimal number of clusters based on Elbow Method: {optimal_k}")
  ...
  kmeans = KMeans(n_clusters=optimal_k, random_state=42, n_init=10)
  kmeans_labels = kmeans.fit_predict(X_scaled)
  \<close>
  The notebook silences every warning, so the locator's warning that it found no knee
  is not shown.
\<close>

definition elbow_method ::
  "(nat \<Rightarrow> error + int list \<times> real) \<Rightarrow> (int list \<Rightarrow> error + real) \<Rightarrow>
   error + (real list \<times> real list \<times> nat option)" where
  "elbow_method fit score =
     (case sweep fit score range_n_clusters of
        Inl e \<Rightarrow> Inl e
      | Inr (wcss, silhouette_scores) \<Rightarrow>
          Inr (wcss, silhouette_scores, KneeLocator_elbow range_n_clusters wcss))"

definition kmeans_cells ::
  "(nat \<Rightarrow> 'rng) \<Rightarrow> ('rng \<Rightarrow> nat \<Rightarrow> nat \<Rightarrow> column list \<Rightarrow> error + int list \<times> real) \<Rightarrow> 'rng \<Rightarrow>
   (column list \<Rightarrow> int list \<Rightarrow> error + real) \<Rightarrow> column list \<Rightarrow> message list \<times> (error + int list)" where
  "kmeans_cells seeded run global_rng silhouette_score X_scaled =
     (case elbow_method (\<lambda>k. KMeans_fit_predict seeded run global_rng (Some k) (Some 42) 10 X_scaled)
             (silhouette_score X_scaled) of
        Inl e \<Rightarrow> ([], Inl e)
      | Inr (wcss, silhouette_scores, optimal_k) \<Rightarrow>
          ([Optimal_number_of_clusters optimal_k],
           map_sum id fst
             (KMeans_fit_predict seeded run global_rng optimal_k (Some 42) 10 X_scaled)))"

section \<open>The DBSCAN cell\<close>

text \<open>
  \<^verbatim>\<open>
  n_clusters = len(set(dbscan_labels)) - (1 if -1 in dbscan_labels else 0)
  print(f"DBSCAN identified {n_clusters} clusters.")
  if len(set(dbscan_labels)) > 1:
      try:
          db_silhouette = silhouette_score(X_scaled, dbscan_labels)
          print(f"Silhouette score: {db_silhouette:.3f}")
      except Exception as e:
          print(f"Cannot calculate silhouette score: {e}")
  \<close>
  The argument \<open>outcome\<close> is what \<^verbatim>\<open>silhouette_score(X_scaled, dbscan_labels)\<close> returns or
  raises when it is called. The result is what the cell prints.
\<close>

definition dbscan_n_clusters :: "int list \<Rightarrow> int" where
  "dbscan_n_clusters dbscan_labels =
     int (card (set dbscan_labels)) - (if -1 \<in> set dbscan_labels then 1 else 0)"

definition silhouette_cell :: "error + real \<Rightarrow> int list \<Rightarrow> message list" where
  "silhouette_cell outcome dbscan_labels =
     DBSCAN_identified (dbscan_n_clusters dbscan_labels) #
     (if card (set dbscan_labels) > 1
      then (case outcome of
              Inr db_silhouette \<Rightarrow> [Silhouette_score db_silhouette]
            | Inl e \<Rightarrow> [Cannot_calculate_silhouette_score e])
      else [])"

section \<open>The clusterers\<close>

text \<open>
  Modelled from the spec: a standardized feature vector (section 3, FeatureVector), the
  tuple of age, income, spending score and encoded gender. The two clusterers are
  scikit-learn's \<^verbatim>\<open>KMeans\<close> and \<^verbatim>\<open>DBSCAN\<close>; the notebook only calls them, and their code
  is not part of the repository.
\<close>

record FeatureVector =
  f_age :: real
  f_income :: real
  f_spending :: real
  f_gender :: real

text \<open>Modelled from the spec: the squared Euclidean distance of the glossary's inertia.\<close>

definition sqdist :: "FeatureVector \<Rightarrow> FeatureVector \<Rightarrow> real" where
  "sqdist p c = (f_age p - f_age c)\<^sup>2 + (f_income p - f_income c)\<^sup>2
              + (f_spending p - f_spending c)\<^sup>2 + (f_gender p - f_gender c)\<^sup>2"

text \<open>Modelled from the spec: the Euclidean distance of sections 4.3 and 4.4.\<close>

definition euclidean :: "FeatureVector \<Rightarrow> FeatureVector \<Rightarrow> real" where
  "euclidean p c = sqrt (sqdist p c)"

subsection \<open>K-Means\<close>

text \<open>
  Modelled from the spec: step (a) of section 4.3 for one point, the index of its nearest
  centroid by Euclidean distance (the first one among equally near centroids).
\<close>

fun nearest :: "FeatureVector list \<Rightarrow> FeatureVector \<Rightarrow> nat" where
  "nearest [] p = 0"
| "nearest [c] p = 0"
| "nearest (c # cs) p =
     (let j = nearest cs p in if euclidean p c \<le> euclidean p (cs ! j) then 0 else Suc j)"

text \<open>Modelled from the spec: step (a) of section 4.3, every point to its nearest centroid.\<close>

definition assign :: "FeatureVector list \<Rightarrow> FeatureVector list \<Rightarrow> nat list" where
  "assign centroids points = map (nearest centroids) points"

text \<open>Modelled from the spec: the points assigned to cluster \<open>j\<close> (section 4.3, step (b)).\<close>

definition members :: "FeatureVector list \<Rightarrow> nat list \<Rightarrow> nat \<Rightarrow> FeatureVector list" where
  "members points assigned j = map fst (filter (\<lambda>(p, l). l = j) (zip points assigned))"

text \<open>Modelled from the spec: the mean of a cluster's points (section 4.3, step (b)).\<close>

definition mean_point :: "FeatureVector list \<Rightarrow> FeatureVector" where
  "mean_point ps =
     \<lparr>f_age = sum_list (map f_age ps) / real (length ps),
      f_income = sum_list (map f_income ps) / real (length ps),
      f_spending = sum_list (map f_spending ps) / real (length ps),
      f_gender = sum_list (map f_gender ps) / real (length ps)\<rparr>"

text \<open>
  Modelled from the spec: the point farthest from its current centroid, to which the
  degenerate case of section 4.3 reseeds an empty cluster.
\<close>

fun farthest :: "FeatureVector list \<Rightarrow> (FeatureVector \<times> nat) list \<Rightarrow> FeatureVector \<times> nat" where
  "farthest centroids [] = (\<lparr>f_age = 0, f_income = 0, f_spending = 0, f_gender = 0\<rparr>, 0)"
| "farthest centroids [pl] = pl"
| "farthest centroids ((p, l) # rest) =
     (let (r, k) = farthest centroids rest
      in if euclidean r (centroids ! k) \<le> euclidean p (centroids ! l) then (p, l) else (r, k))"

text \<open>
  Modelled from the spec: step (b) of section 4.3. Each centroid becomes the mean of its
  assigned points; a cluster that lost all its members is reseeded to the point farthest
  from its current centroid.
\<close>

definition update_centroids ::
  "FeatureVector list \<Rightarrow> FeatureVector list \<Rightarrow> nat list \<Rightarrow> FeatureVector list" where
  "update_centroids centroids points assigned =
     map (\<lambda>j. let m = members points assigned j
              in if m \<noteq> [] then mean_point m
                 else if points = [] then centroids ! j
                 else fst (farthest centroids (zip points assigned)))
       [0..<length centroids]"

text \<open>
  Modelled from the spec: the inertia of the glossary, the sum of squared Euclidean
  distances from each point to its assigned cluster centroid.
\<close>

definition inertia :: "FeatureVector list \<Rightarrow> FeatureVector list \<Rightarrow> nat list \<Rightarrow> real" where
  "inertia centroids points assigned =
     sum_list (map (\<lambda>(p, l). (euclidean p (centroids ! l))\<^sup>2) (zip points assigned))"

text \<open>
  Modelled from the spec: the output of section 4.3 (assignment and final centroids),
  with the number of iterations run and the inertia seen at each of them.
\<close>

record KMeansResult =
  final_centroids :: "FeatureVector list"
  final_labels :: "nat list"
  iterations :: nat
  inertia_trace :: "real list"

text \<open>
  Modelled from the spec: the iteration of section 4.3, "repeating until assignments stop
  changing or a maximum iteration count is reached". The first argument counts the
  iterations that are left; \<open>previous\<close> is the assignment of the iteration before.
\<close>

fun lloyd :: "nat \<Rightarrow> FeatureVector list \<Rightarrow> FeatureVector list \<Rightarrow> nat list option \<Rightarrow> KMeansResult" where
  "lloyd 0 points cs previous =
     \<lparr>final_centroids = cs, final_labels = assign cs points, iterations = 0,
      inertia_trace = [inertia cs points (assign cs points)]\<rparr>"
| "lloyd (Suc remaining) points cs previous =
     (let ls = assign cs points in
      if previous = Some ls
      then \<lparr>final_centroids = cs, final_labels = ls, iterations = 1,
            inertia_trace = [inertia cs points ls]\<rparr>
      else let r = lloyd remaining points (update_centroids cs points ls) (Some ls)
           in r\<lparr>iterations := Suc (iterations r),
                inertia_trace := inertia cs points ls # inertia_trace r\<rparr>)"

text \<open>
  Modelled from the spec: the K-Means clusterer of section 4.3 for one start, from given
  initial centroids (their seeded choice is not modelled) and a maximum iteration count.
\<close>

definition kmeans :: "nat \<Rightarrow> FeatureVector list \<Rightarrow> FeatureVector list \<Rightarrow> KMeansResult" where
  "kmeans max_iter points initial_centroids = lloyd max_iter points initial_centroids None"

subsection \<open>DBSCAN\<close>

text \<open>
  Modelled from the spec: the eps-neighborhood of a point (section 4.4), given by the
  indices of the points within distance \<open>eps\<close> of it, itself included.
\<close>

definition neighborhood :: "real \<Rightarrow> FeatureVector list \<Rightarrow> nat \<Rightarrow> nat list" where
  "neighborhood eps points i =
     filter (\<lambda>j. euclidean (points ! i) (points ! j) \<le> eps) [0..<length points]"

text \<open>
  Modelled from the spec: a core point (section 4.4), whose neighborhood, including
  itself, has at least min-samples members.
\<close>

definition core_point :: "real \<Rightarrow> nat \<Rightarrow> FeatureVector list \<Rightarrow> nat \<Rightarrow> bool" where
  "core_point eps min_samples points i \<longleftrightarrow> min_samples \<le> length (neighborhood eps points i)"

text \<open>
  Modelled from the spec: one round of connecting (section 4.4). The points reached so
  far are joined by the neighborhoods of the core points among them.
\<close>

definition grow :: "real \<Rightarrow> nat \<Rightarrow> FeatureVector list \<Rightarrow> nat list \<Rightarrow> nat list" where
  "grow eps min_samples points reached =
     remdups (reached @ concat (map (neighborhood eps points)
                                   (filter (core_point eps min_samples points) reached)))"

text \<open>
  Modelled from the spec: the cluster of a core point (section 4.4), "formed by
  transitively connecting core points" and attaching the points in their neighborhoods.
  One round per point of the dataset is enough to reach all of it.
\<close>

definition reach :: "real \<Rightarrow> nat \<Rightarrow> FeatureVector list \<Rightarrow> nat \<Rightarrow> nat list" where
  "reach eps min_samples points seed = (grow eps min_samples points ^^ length points) [seed]"

text \<open>Modelled from the spec: the noise sentinel of section 4.4, conventionally -1.\<close>

definition noise :: int where
  "noise = -1"

text \<open>
  Modelled from the spec: the points of a cluster that have no label yet get the label
  of the cluster (section 4.4); a border point keeps the label of the first cluster that
  reached it.
\<close>

definition label_cluster :: "nat list \<Rightarrow> int \<Rightarrow> int list \<Rightarrow> int list" where
  "label_cluster cluster c assigned =
     map (\<lambda>j. if assigned ! j = noise \<and> j \<in> set cluster then c else assigned ! j)
       [0..<length assigned]"

text \<open>
  Modelled from the spec: the traversal of section 4.4. The points are visited in input
  order; a core point without a label starts the next cluster, numbered from 0.
\<close>

fun dbscan_loop ::
  "real \<Rightarrow> nat \<Rightarrow> FeatureVector list \<Rightarrow> nat list \<Rightarrow> int list \<Rightarrow> int \<Rightarrow> int list" where
  "dbscan_loop eps min_samples points [] assigned c = assigned"
| "dbscan_loop eps min_samples points (i # rest) assigned c =
     (if assigned ! i \<noteq> noise \<or> \<not> core_point eps min_samples points i
      then dbscan_loop eps min_samples points rest assigned c
      else dbscan_loop eps min_samples points rest
             (label_cluster (reach eps min_samples points i) c assigned) (c + 1))"

text \<open>
  Modelled from the spec: the DBSCAN clusterer of section 4.4. Every point starts as
  noise; the result is the label of every point.
\<close>

definition dbscan :: "real \<Rightarrow> nat \<Rightarrow> FeatureVector list \<Rightarrow> int list" where
  "dbscan eps min_samples points =
     dbscan_loop eps min_samples points [0..<length points] (replicate (length points) noise) 0"

text \<open>
  Modelled from the spec: a chain of eps-neighborhoods (section 8). A point is reachable
  from \<open>seed\<close> when a chain of core points leads from \<open>seed\<close> to it, each point of the
  chain lying in the neighborhood of the one before.
\<close>

inductive density_reachable :: "real \<Rightarrow> nat \<Rightarrow> FeatureVector list \<Rightarrow> nat \<Rightarrow> nat \<Rightarrow> bool"
  for eps min_samples points seed where
    start: "density_reachable eps min_samples points seed seed"
  | link: "density_reachable eps min_samples points seed u \<Longrightarrow>
           core_point eps min_samples points u \<Longrightarrow>
           v \<in> set (neighborhood eps points u) \<Longrightarrow>
           density_reachable eps min_samples points seed v"

text \<open>
  What holds of the labels between two steps of the traversal, when \<open>c\<close> clusters have
  been numbered: labels are noise or a number below \<open>c\<close>; every number below \<open>c\<close> is the
  label of a core point from which all points of that label are reachable; and the
  neighborhood of a labelled core point is labelled.
\<close>

definition dbscan_invariant :: "real \<Rightarrow> nat \<Rightarrow> FeatureVector list \<Rightarrow> int list \<Rightarrow> int \<Rightarrow> bool" where
  "dbscan_invariant eps m ps ls c \<longleftrightarrow>
     length ls = length ps \<and> 0 \<le> c \<and>
     (\<forall>x<length ps. ls ! x = noise \<or> (0 \<le> ls ! x \<and> ls ! x < c)) \<and>
     (\<forall>l. 0 \<le> l \<and> l < c \<longrightarrow>
        (\<exists>s<length ps. core_point eps m ps s \<and> ls ! s = l \<and>
           (\<forall>x<length ps. ls ! x = l \<longrightarrow> density_reachable eps m ps s x))) \<and>
     (\<forall>u<length ps. core_point eps m ps u \<and> ls ! u \<noteq> noise \<longrightarrow>
        (\<forall>v \<in> set (neighborhood eps ps u). ls ! v \<noteq> noise))"

section \<open>Example inputs\<close>

definition two_customers :: "string Row list" where
  "two_customers =
     [\<lparr>CustomerID = 1, Gender = ''Male'', Age = 20, Annual_Income = 30, Spending_Score = 40\<rparr>,
      \<lparr>CustomerID = 2, Gender = ''Female'', Age = 22, Annual_Income = 32, Spending_Score = 42\<rparr>]"



text \<open>
  A stand-in for the clustering, used to run the K-Means cells on a concrete input: it
  returns no labels and an inertia that falls on a straight line, \<open>11 - k\<close>.
\<close>

definition line_run :: "unit \<Rightarrow> nat \<Rightarrow> nat \<Rightarrow> column list \<Rightarrow> error + int list \<times> real" where
  "line_run rng k n_init X = Inr ([], 11 - real k)"

text \<open>Points that differ in their first feature only, and in their first two features.\<close>

definition pt :: "real \<Rightarrow> FeatureVector" where
  "pt a = \<lparr>f_age = a, f_income = 0, f_spending = 0, f_gender = 0\<rparr>"

definition pt2 :: "real \<Rightarrow> real \<Rightarrow> FeatureVector" where
  "pt2 a b = \<lparr>f_age = a, f_income = b, f_spending = 0, f_gender = 0\<rparr>"

text \<open>The two groups of three points of the end-to-end scenario of section 8.\<close>

definition two_groups :: "FeatureVector list" where
  "two_groups = [pt2 0 0, pt2 0 1, pt2 1 0, pt2 10 10, pt2 10 11, pt2 11 10]"

section \<open>Properties of the preprocessing\<close>



lemma sum_list_shift:
  fixes xs :: "real list"
  shows "sum_list (map (\<lambda>x. x - a) xs) = sum_list xs - real (length xs) * a"
  by (induction xs) (auto simp: algebra_simps)















section \<open>A constant feature column\<close>






section \<open>The gender encoding\<close>



section \<open>The labelled output file\<close>

lemma segmented_data_Inr_iff:
  "(\<exists>out. segmented_data df km db = Inr out) \<longleftrightarrow> length km = length df \<and> length db = length df"
  by (auto simp: segmented_data_def setitem_array_def getitem_def setitem_series_def encode_def Let_def)

lemma segmented_data_eq:
  assumes "length km = length df" "length db = length df"
  shows "segmented_data df km db = Inr \<lparr>header = input_columns @ [''KMeans_Cluster'', ''DBSCAN_Cluster''],
      body = map (\<lambda>i. row_cells (df ! i) @ [Int_cell (km ! i), Int_cell (db ! i)]) [0..<length df]\<rparr>"
  using assms
  by (simp add: segmented_data_def setitem_array_def getitem_def setitem_series_def encode_def
      Let_def to_csv_def cell_of_def)

text \<open>
  C1. With one K-Means label and one DBSCAN label per row, as the clusterers return
  them, the output file is produced. Whenever it is produced, its header is the five
  input columns followed by exactly the two columns \<open>KMeans_Cluster\<close> and
  \<open>DBSCAN_Cluster\<close>, it has one line per input row, and the line of row \<open>i\<close> holds the
  five original values of that row unchanged (Gender as its original string) followed
  by the two integer labels of that row.
\<close>

theorem segmented_data_rows:
  "(length km = length df \<and> length db = length df \<longrightarrow> (\<exists>out. segmented_data df km db = Inr out)) \<and>
   (\<forall>out. segmented_data df km db = Inr out \<longrightarrow>
      header out = input_columns @ [''KMeans_Cluster'', ''DBSCAN_Cluster''] \<and>
      length (body out) = length df \<and>
      (\<forall>i<length df. body out ! i =
          [Int_cell (CustomerID (df ! i)), Str_cell (Gender (df ! i)), Int_cell (Age (df ! i)),
           Int_cell (Annual_Income (df ! i)), Int_cell (Spending_Score (df ! i)),
           Int_cell (km ! i), Int_cell (db ! i)]))"
proof (intro conjI allI impI)
  assume "length km = length df \<and> length db = length df"
  then show "\<exists>out. segmented_data df km db = Inr out"
    by (simp add: segmented_data_Inr_iff)
next
  fix out assume a: "segmented_data df km db = Inr out"
  then have l: "length km = length df" "length db = length df"
    using segmented_data_Inr_iff[of df km db] by auto
  from a show "header out = input_columns @ [''KMeans_Cluster'', ''DBSCAN_Cluster'']"
    unfolding segmented_data_eq[OF l] by auto
  from a show "length (body out) = length df"
    unfolding segmented_data_eq[OF l] by auto
  fix i assume "i < length df"
  with a show "body out ! i =
          [Int_cell (CustomerID (df ! i)), Str_cell (Gender (df ! i)), Int_cell (Age (df ! i)),
           Int_cell (Annual_Income (df ! i)), Int_cell (Spending_Score (df ! i)),
           Int_cell (km ! i), Int_cell (db ! i)]"
    unfolding segmented_data_eq[OF l] by (auto simp: row_cells_def)
qed

theorem segmented_data_rows_witness:
  "\<exists>out. segmented_data two_customers [1, 0] [0, -1] = Inr out \<and>
     header out = [''CustomerID'', ''Gender'', ''Age'', ''Annual Income (k$)'',
                   ''Spending Score (1-100)'', ''KMeans_Cluster'', ''DBSCAN_Cluster''] \<and>
     length (body out) = 2 \<and>
     body out ! 0 = [Int_cell 1, Str_cell ''Male'', Int_cell 20, Int_cell 30, Int_cell 40,
                     Int_cell 1, Int_cell 0] \<and>
     body out ! 1 = [Int_cell 2, Str_cell ''Female'', Int_cell 22, Int_cell 32, Int_cell 42,
                     Int_cell 0, Int_cell (-1)]"
proof -
  have l: "length [1, 0 :: int] = length two_customers \<and> length [0, -1 :: int] = length two_customers"
    by (simp add: two_customers_def)
  with segmented_data_rows[of "[1, 0]" two_customers "[0, -1]"]
  obtain out where out: "segmented_data two_customers [1, 0] [0, -1] = Inr out"
    by blast
  from segmented_data_rows[of "[1, 0]" two_customers "[0, -1]"] out
  have "header out = input_columns @ [''KMeans_Cluster'', ''DBSCAN_Cluster'']"
    and "length (body out) = length two_customers"
    and "\<forall>i<length two_customers. body out ! i =
          [Int_cell (CustomerID (two_customers ! i)), Str_cell (Gender (two_customers ! i)),
           Int_cell (Age (two_customers ! i)), Int_cell (Annual_Income (two_customers ! i)),
           Int_cell (Spending_Score (two_customers ! i)), Int_cell ([1, 0] ! i), Int_cell ([0, -1] ! i)]"
    by blast+
  then have "header out = [''CustomerID'', ''Gender'', ''Age'', ''Annual Income (k$)'',
                   ''Spending Score (1-100)'', ''KMeans_Cluster'', ''DBSCAN_Cluster'']"
    and "length (body out) = 2"
    and "body out ! 0 = [Int_cell 1, Str_cell ''Male'', Int_cell 20, Int_cell 30, Int_cell 40,
                     Int_cell 1, Int_cell 0]"
    and "body out ! 1 = [Int_cell 2, Str_cell ''Female'', Int_cell 22, Int_cell 32, Int_cell 42,
                     Int_cell 0, Int_cell (-1)]"
    by (simp_all add: two_customers_def input_columns_def)
  with out show ?thesis by blast
qed

section \<open>The K-Means cells\<close>

lemma range_n_clusters_eq: "range_n_clusters = [2, 3, 4, 5, 6, 7, 8, 9, 10]"
  by (simp add: range_n_clusters_def upt_rec)

lemma sweep_length:
  "sweep fit score ns = Inr (wcss, scores) \<Longrightarrow> length wcss = length ns \<and> length scores = length ns"
  by (induction ns arbitrary: wcss scores) (auto split: sum.splits prod.splits)


lemmas kneedle_defs = KneeLocator_elbow_def normalize_arr_def transform_y_def y_difference_def
  argrelextrema_def diff_def mean_def

lemma upt_9: "[0..<9] = [0, 1, 2, 3, 4, 5, 6, 7, 8]"
  by (simp add: upt_rec)

lemma straight_line_no_elbow:
  "KneeLocator_elbow range_n_clusters [9, 8, 7, 6, 5, 4, 3, 2, 1] = None"
  unfolding range_n_clusters_eq by (simp add: kneedle_defs upt_9 Let_def)

text \<open>
  C4, as the claim states it, fails. On the inertia curve \<open>9, 8, \<dots>, 1\<close>, a straight line,
  the locator finds no elbow and returns \<open>None\<close>; the notebook hands that result to
  K-Means as its number of clusters, where the parameter check rejects it.
\<close>

theorem no_elbow_counterexample:
  "KneeLocator_elbow range_n_clusters [9, 8, 7, 6, 5, 4, 3, 2, 1] = None \<and>
   validate_n_clusters (KneeLocator_elbow range_n_clusters [9, 8, 7, 6, 5, 4, 3, 2, 1])
     = Inl InvalidParameterError"
  by (simp add: straight_line_no_elbow validate_n_clusters_def)

text \<open>
  C4, amended. A sweep that ends without an exception has recorded nine inertia values,
  so a curve of fewer than three points never reaches the locator. When the locator
  finds no elbow on the recorded curve, the cells print \<open>None\<close> as the optimal number of
  clusters and pass it to K-Means, and the run ends with the parameter error of that
  fit: no result "no elbow found" is surfaced and no other count is asked for.
\<close>

theorem no_elbow_reaches_kmeans:
  assumes "sweep (\<lambda>k. KMeans_fit_predict seeded run g (Some k) (Some 42) 10 X) (score X)
             range_n_clusters = Inr (wcss, scores)"
  shows "length wcss = 9 \<and>
         (KneeLocator_elbow range_n_clusters wcss = None \<longrightarrow>
            kmeans_cells seeded run g score X
              = ([Optimal_number_of_clusters None], Inl InvalidParameterError))"
  using assms sweep_length[OF assms]
  by (auto simp: kmeans_cells_def elbow_method_def KMeans_fit_predict_def validate_n_clusters_def
      range_n_clusters_eq)

lemma line_run_sweep:
  "sweep (\<lambda>k. KMeans_fit_predict (\<lambda>s. ()) line_run () (Some k) (Some 42) 10 [])
     (\<lambda>l. Inr 0) range_n_clusters
   = Inr ([9, 8, 7, 6, 5, 4, 3, 2, 1], [0, 0, 0, 0, 0, 0, 0, 0, 0])"
  by (simp add: range_n_clusters_eq KMeans_fit_predict_def validate_n_clusters_def line_run_def)

theorem no_elbow_reaches_kmeans_witness:
  "kmeans_cells (\<lambda>s. ()) line_run () (\<lambda>X l. Inr 0) []
     = ([Optimal_number_of_clusters None], Inl InvalidParameterError)"
  using no_elbow_reaches_kmeans[of "\<lambda>s. ()" line_run "()" "[]" "\<lambda>X l. Inr 0", OF line_run_sweep]
    straight_line_no_elbow by simp


section \<open>The silhouette score of the DBSCAN labels\<close>

lemma dbscan_n_clusters_le: "dbscan_n_clusters ls \<le> int (card (set ls))"
  by (simp add: dbscan_n_clusters_def)

text \<open>
  C8, as the claim states it, fails. When DBSCAN puts all points into one cluster there
  are fewer than two clusters and the score is skipped, but the cell reports nothing
  about it: the count of clusters is all it prints.
\<close>

theorem silhouette_counterexample:
  "dbscan_n_clusters [0, 0, 0] = 1 \<and>
   silhouette_cell (Inl ValueError) [0, 0, 0] = [DBSCAN_identified 1]"
  by (simp add: silhouette_cell_def dbscan_n_clusters_def)

text \<open>
  C8, amended. When the labelling holds fewer than two distinct labels the silhouette
  score is not computed and the cell prints nothing about it. When the labelling holds
  at least two clusters that are not noise the score is computed; the cell prints it,
  or, when its computation raises, prints that the score cannot be calculated, with
  the error. In both cases the cell ends normally with what it printed.
\<close>

theorem silhouette_guard:
  "(card (set labels) \<le> 1 \<longrightarrow>
      silhouette_cell outcome labels = [DBSCAN_identified (dbscan_n_clusters labels)]) \<and>
   (2 \<le> dbscan_n_clusters labels \<longrightarrow>
      silhouette_cell outcome labels =
        [DBSCAN_identified (dbscan_n_clusters labels),
         case outcome of Inr s \<Rightarrow> Silhouette_score s
                       | Inl e \<Rightarrow> Cannot_calculate_silhouette_score e])"
  using dbscan_n_clusters_le[of labels]
  by (auto simp: silhouette_cell_def split: sum.splits)

theorem silhouette_guard_witness:
  "silhouette_cell (Inl ValueError) [-1, -1, -1] = [DBSCAN_identified 0] \<and>
   silhouette_cell (Inr (1 / 2)) [0, 0, 1, 1, -1] = [DBSCAN_identified 2, Silhouette_score (1 / 2)] \<and>
   silhouette_cell (Inl ValueError) [0, 0, 1, 1, -1]
     = [DBSCAN_identified 2, Cannot_calculate_silhouette_score ValueError]"
proof -
  have a: "card (set [-1, -1, -1 :: int]) \<le> 1" by simp
  have b: "2 \<le> dbscan_n_clusters [0, 0, 1, 1, -1]" by (simp add: dbscan_n_clusters_def)
  have n0: "dbscan_n_clusters [-1, -1, -1] = 0" and n2: "dbscan_n_clusters [0, 0, 1, 1, -1] = 2"
    by (simp_all add: dbscan_n_clusters_def)
  show ?thesis
    using silhouette_guard[of "[-1, -1, -1]" "Inl ValueError"]
      silhouette_guard[of "[0, 0, 1, 1, -1]" "Inr (1 / 2)"]
      silhouette_guard[of "[0, 0, 1, 1, -1]" "Inl ValueError"] a b
    unfolding n0 n2 by simp
qed

section \<open>The elbow of a convex inertia curve\<close>




























section \<open>The K-Means iteration\<close>

lemma sqdist_nonneg: "0 \<le> sqdist p c"
  by (simp add: sqdist_def)

lemma euclidean_squared: "(euclidean p c)\<^sup>2 = sqdist p c"
  by (simp add: euclidean_def sqdist_nonneg)

lemma euclidean_le_iff: "euclidean p a \<le> euclidean p b \<longleftrightarrow> sqdist p a \<le> sqdist p b"
  by (simp add: euclidean_def)

lemma nearest_less: "cs \<noteq> [] \<Longrightarrow> nearest cs p < length cs"
  by (induction cs p rule: nearest.induct) (auto simp: Let_def)

lemma nearest_le:
  "j < length cs \<Longrightarrow> sqdist p (cs ! nearest cs p) \<le> sqdist p (cs ! j)"
proof (induction cs p arbitrary: j rule: nearest.induct)
  case (1 p)
  then show ?case by simp
next
  case (2 c p)
  then show ?case by simp
next
  case (3 c v va p)
  let ?cs = "v # va"
  let ?k = "nearest ?cs p"
  have IH: "sqdist p (?cs ! ?k) \<le> sqdist p (?cs ! i)" if "i < length ?cs" for i
    using 3(1)[of i] that by simp
  show ?case
  proof (cases "euclidean p c \<le> euclidean p (?cs ! ?k)")
    case True
    then have n: "nearest (c # ?cs) p = 0" by (simp add: Let_def)
    from True have le: "sqdist p c \<le> sqdist p (?cs ! ?k)" by (simp add: euclidean_le_iff)
    show ?thesis
    proof (cases j)
      case 0
      then show ?thesis using n by simp
    next
      case (Suc i)
      then have "i < length ?cs" using 3(2) by simp
      from IH[OF this] le show ?thesis using n Suc by simp
    qed
  next
    case False
    then have n: "nearest (c # ?cs) p = Suc ?k" by (simp add: Let_def)
    from False have lt: "sqdist p (?cs ! ?k) \<le> sqdist p c" by (simp add: euclidean_le_iff)
    show ?thesis
    proof (cases j)
      case 0
      then show ?thesis using n lt by simp
    next
      case (Suc i)
      then have "i < length ?cs" using 3(2) by simp
      from IH[OF this] show ?thesis using n Suc by simp
    qed
  qed
qed

lemma inertia_sqdist:
  "inertia cs ps ls = sum_list (map (\<lambda>(p, l). sqdist p (cs ! l)) (zip ps ls))"
  by (simp add: inertia_def euclidean_squared)

lemma assign_improves:
  assumes "length ps = length ls" and "\<forall>l \<in> set ls. l < length cs"
  shows "inertia cs ps (assign cs ps) \<le> inertia cs ps ls"
  using assms
proof (induction ps ls rule: list_induct2)
  case Nil
  then show ?case by (simp add: inertia_sqdist assign_def)
next
  case (Cons p ps l ls)
  have "sqdist p (cs ! nearest cs p) \<le> sqdist p (cs ! l)"
    using nearest_le[of l cs p] Cons.prems by simp
  moreover have "inertia cs ps (assign cs ps) \<le> inertia cs ps ls"
    using Cons by simp
  ultimately show ?case by (simp add: inertia_sqdist assign_def)
qed

lemma sum_squares_shift:
  fixes xs :: "real list"
  shows "sum_list (map (\<lambda>x. (x - c)\<^sup>2) xs)
       = sum_list (map (\<lambda>x. (x - m)\<^sup>2) xs) + 2 * (m - c) * sum_list (map (\<lambda>x. x - m) xs)
         + real (length xs) * (m - c)\<^sup>2"
  by (induction xs) (auto simp: algebra_simps power2_eq_square)

lemma mean_minimises:
  fixes xs :: "real list"
  assumes "xs \<noteq> []"
  shows "sum_list (map (\<lambda>x. (x - sum_list xs / real (length xs))\<^sup>2) xs)
         \<le> sum_list (map (\<lambda>x. (x - c)\<^sup>2) xs)"
proof -
  let ?m = "sum_list xs / real (length xs)"
  have "sum_list (map (\<lambda>x. x - ?m) xs) = 0"
    using assms by (simp add: sum_list_shift)
  then have "sum_list (map (\<lambda>x. (x - c)\<^sup>2) xs)
      = sum_list (map (\<lambda>x. (x - ?m)\<^sup>2) xs) + real (length xs) * (?m - c)\<^sup>2"
    using sum_squares_shift[of c xs ?m] by simp
  moreover have "0 \<le> real (length xs) * (?m - c)\<^sup>2" by simp
  ultimately show ?thesis by linarith
qed

lemma mean_point_minimises:
  assumes "ms \<noteq> []"
  shows "sum_list (map (\<lambda>p. sqdist p (mean_point ms)) ms) \<le> sum_list (map (\<lambda>p. sqdist p c) ms)"
proof -
  have coord: "sum_list (map (\<lambda>p. (f p - sum_list (map f ms) / real (length ms))\<^sup>2) ms)
        \<le> sum_list (map (\<lambda>p. (f p - f c)\<^sup>2) ms)" for f :: "FeatureVector \<Rightarrow> real"
    using mean_minimises[of "map f ms" "f c"] assms by (simp add: comp_def)
  have split: "sum_list (map (\<lambda>p. sqdist p d) ms)
      = sum_list (map (\<lambda>p. (f_age p - f_age d)\<^sup>2) ms)
        + sum_list (map (\<lambda>p. (f_income p - f_income d)\<^sup>2) ms)
        + sum_list (map (\<lambda>p. (f_spending p - f_spending d)\<^sup>2) ms)
        + sum_list (map (\<lambda>p. (f_gender p - f_gender d)\<^sup>2) ms)" for d
    by (simp add: sqdist_def sum_list_addf)
  show ?thesis
    unfolding split using coord[of f_age] coord[of f_income] coord[of f_spending] coord[of f_gender]
    by (simp add: mean_point_def)
qed

lemma sum_list_by_label:
  fixes g :: "nat \<Rightarrow> 'a \<Rightarrow> real"
  assumes "length ps = length ls" and "\<forall>l \<in> set ls. l < k"
  shows "sum_list (map (\<lambda>(p, l). g l p) (zip ps ls))
         = (\<Sum>j<k. sum_list (map (g j) (map fst (filter (\<lambda>(p, l). l = j) (zip ps ls)))))"
  using assms
proof (induction ps ls rule: list_induct2)
  case Nil
  then show ?case by simp
next
  case (Cons p ps l ls)
  let ?rest = "\<lambda>j. sum_list (map (g j) (map fst (filter (\<lambda>(p, l). l = j) (zip ps ls))))"
  have l: "l < k" using Cons.prems by simp
  have "(\<Sum>j<k. sum_list (map (g j) (map fst (filter (\<lambda>(p, l). l = j) (zip (p # ps) (l # ls))))))
      = (\<Sum>j<k. (if j = l then g j p else 0) + ?rest j)"
    by (intro sum.cong) auto
  also have "\<dots> = (\<Sum>j<k. if j = l then g j p else 0) + (\<Sum>j<k. ?rest j)"
    by (simp add: sum.distrib)
  also have "(\<Sum>j<k. if j = l then g j p else 0) = g l p"
    using l by simp
  finally show ?case using Cons by simp
qed

lemma update_length: "length (update_centroids cs ps ls) = length cs"
  by (simp add: update_centroids_def)

lemma update_improves:
  assumes "length ps = length ls" and "\<forall>l \<in> set ls. l < length cs"
  shows "inertia (update_centroids cs ps ls) ps ls \<le> inertia cs ps ls"
proof -
  let ?k = "length cs"
  let ?cs' = "update_centroids cs ps ls"
  have g: "inertia d ps ls = (\<Sum>j<?k. sum_list (map (\<lambda>p. sqdist p (d ! j)) (members ps ls j)))" for d
    unfolding inertia_sqdist members_def
    using sum_list_by_label[OF assms, of "\<lambda>l p. sqdist p (d ! l)"] by simp
  have "sum_list (map (\<lambda>p. sqdist p (?cs' ! j)) (members ps ls j))
        \<le> sum_list (map (\<lambda>p. sqdist p (cs ! j)) (members ps ls j))" if "j < ?k" for j
  proof (cases "members ps ls j = []")
    case True
    then show ?thesis by simp
  next
    case False
    then have "?cs' ! j = mean_point (members ps ls j)"
      using that by (simp add: update_centroids_def Let_def)
    then show ?thesis using mean_point_minimises[OF False] by simp
  qed
  then show ?thesis unfolding g by (intro sum_mono) simp
qed

lemma assign_labels: "cs \<noteq> [] \<Longrightarrow> \<forall>l \<in> set (assign cs ps). l < length cs"
  by (simp add: assign_def nearest_less)

lemma lloyd_step:
  assumes "cs \<noteq> []"
  shows "inertia (update_centroids cs ps (assign cs ps)) ps (assign (update_centroids cs ps (assign cs ps)) ps)
         \<le> inertia cs ps (assign cs ps)"
proof -
  let ?ls = "assign cs ps"
  let ?cs' = "update_centroids cs ps ?ls"
  have len: "length ps = length ?ls" by (simp add: assign_def)
  have lab: "\<forall>l \<in> set ?ls. l < length cs" using assign_labels[OF assms] .
  have lab': "\<forall>l \<in> set ?ls. l < length ?cs'" using lab by (simp add: update_length)
  have "inertia ?cs' ps (assign ?cs' ps) \<le> inertia ?cs' ps ?ls"
    by (rule assign_improves[OF len lab'])
  also have "\<dots> \<le> inertia cs ps ?ls"
    by (rule update_improves[OF len lab])
  finally show ?thesis .
qed

lemma lloyd_trace_hd:
  "inertia_trace (lloyd m ps cs prev) \<noteq> [] \<and>
   hd (inertia_trace (lloyd m ps cs prev)) = inertia cs ps (assign cs ps)"
  by (cases m) (simp_all add: Let_def)

lemma lloyd_n_iter: "iterations (lloyd m ps cs prev) \<le> m"
  by (induction m arbitrary: cs prev) (auto simp: Let_def)

lemma lloyd_trace_length: "length (inertia_trace (lloyd m ps cs prev)) \<le> m + 1"
  by (induction m arbitrary: cs prev) (auto simp: Let_def)

lemma lloyd_labels:
  "final_labels (lloyd m ps cs prev) = assign (final_centroids (lloyd m ps cs prev)) ps"
  by (induction m arbitrary: cs prev) (auto simp: Let_def)

lemma lloyd_trace_last:
  "last (inertia_trace (lloyd m ps cs prev))
   = inertia (final_centroids (lloyd m ps cs prev)) ps (final_labels (lloyd m ps cs prev))"
proof (induction m arbitrary: cs prev)
  case 0
  then show ?case by simp
next
  case (Suc m)
  show ?case
    using Suc[of "update_centroids cs ps (assign cs ps)" "Some (assign cs ps)"]
      lloyd_trace_hd[of m ps "update_centroids cs ps (assign cs ps)" "Some (assign cs ps)"]
    by (auto simp: Let_def)
qed

lemma lloyd_trace_nonincreasing:
  assumes "cs \<noteq> []"
  shows "\<forall>i. i + 1 < length (inertia_trace (lloyd m ps cs prev)) \<longrightarrow>
           inertia_trace (lloyd m ps cs prev) ! (i + 1) \<le> inertia_trace (lloyd m ps cs prev) ! i"
  using assms
proof (induction m arbitrary: cs prev)
  case 0
  then show ?case by simp
next
  case (Suc m)
  let ?ls = "assign cs ps"
  let ?cs' = "update_centroids cs ps ?ls"
  let ?r = "lloyd m ps ?cs' (Some ?ls)"
  show ?case
  proof (cases "prev = Some ?ls")
    case True
    then show ?thesis by (simp add: Let_def)
  next
    case False
    have ne': "?cs' \<noteq> []" using Suc.prems update_length[of cs ps ?ls] by auto
    have t: "inertia_trace (lloyd (Suc m) ps cs prev) = inertia cs ps ?ls # inertia_trace ?r"
      using False by (simp add: Let_def)
    have hd: "inertia_trace ?r \<noteq> []" "hd (inertia_trace ?r) = inertia ?cs' ps (assign ?cs' ps)"
      using lloyd_trace_hd[of m ps ?cs' "Some ?ls"] by auto
    have first: "inertia_trace ?r ! 0 \<le> inertia cs ps ?ls"
      using hd lloyd_step[OF Suc.prems, of ps] by (simp add: hd_conv_nth)
    show ?thesis
      unfolding t
    proof (intro allI impI)
      fix i assume i: "i + 1 < length (inertia cs ps ?ls # inertia_trace ?r)"
      show "(inertia cs ps ?ls # inertia_trace ?r) ! (i + 1) \<le> (inertia cs ps ?ls # inertia_trace ?r) ! i"
      proof (cases i)
        case 0
        then show ?thesis using first by simp
      next
        case (Suc k)
        then have "k + 1 < length (inertia_trace ?r)" using i by simp
        then show ?thesis using Suc.IH[OF ne', of "Some ?ls"] Suc by simp
      qed
    qed
  qed
qed

lemmas kmeans_defs = kmeans_def assign_def euclidean_def sqdist_def update_centroids_def
  members_def mean_point_def inertia_def

lemma four_points_run:
  "kmeans 10 [pt 0, pt 1, pt 10, pt 11] [pt 0, pt 1] =
     \<lparr>final_centroids = [pt (1 / 2), pt (21 / 2)], final_labels = [0, 0, 1, 1], iterations = 3,
      inertia_trace = [181, 194 / 9, 1]\<rparr>"
  by (simp add: kmeans_defs pt_def Let_def eval_nat_numeral power2_eq_square)

text \<open>
  C7. From any initial centroids, at least one, the K-Means iteration runs at most the
  configured maximum number of iterations, and the inertia it sees does not increase
  from one iteration to the next: the trace starts with the inertia of the first
  assignment, each later entry is at most the one before, and the last entry is the
  inertia of the result, whose labels assign every point to its nearest final centroid.
\<close>

theorem kmeans_inertia_nonincreasing:
  assumes "initial_centroids \<noteq> []"
  shows "iterations (kmeans max_iter points initial_centroids) \<le> max_iter \<and>
         length (inertia_trace (kmeans max_iter points initial_centroids)) \<le> max_iter + 1 \<and>
         hd (inertia_trace (kmeans max_iter points initial_centroids))
           = inertia initial_centroids points (assign initial_centroids points) \<and>
         (\<forall>i. i + 1 < length (inertia_trace (kmeans max_iter points initial_centroids)) \<longrightarrow>
              inertia_trace (kmeans max_iter points initial_centroids) ! (i + 1)
              \<le> inertia_trace (kmeans max_iter points initial_centroids) ! i) \<and>
         last (inertia_trace (kmeans max_iter points initial_centroids))
           = inertia (final_centroids (kmeans max_iter points initial_centroids)) points
               (final_labels (kmeans max_iter points initial_centroids)) \<and>
         final_labels (kmeans max_iter points initial_centroids)
           = assign (final_centroids (kmeans max_iter points initial_centroids)) points"
  unfolding kmeans_def
  using lloyd_n_iter[of max_iter points initial_centroids None]
    lloyd_trace_length[of max_iter points initial_centroids None]
    lloyd_trace_hd[of max_iter points initial_centroids None]
    lloyd_trace_nonincreasing[OF assms, of max_iter points None]
    lloyd_trace_last[of max_iter points initial_centroids None]
    lloyd_labels[of max_iter points initial_centroids None]
  by blast

theorem kmeans_inertia_nonincreasing_witness:
  "iterations (kmeans 10 [pt 0, pt 1, pt 10, pt 11] [pt 0, pt 1]) \<le> 10 \<and>
   inertia_trace (kmeans 10 [pt 0, pt 1, pt 10, pt 11] [pt 0, pt 1]) = [181, 194 / 9, 1] \<and>
   inertia_trace (kmeans 10 [pt 0, pt 1, pt 10, pt 11] [pt 0, pt 1]) ! (0 + 1)
     \<le> inertia_trace (kmeans 10 [pt 0, pt 1, pt 10, pt 11] [pt 0, pt 1]) ! 0"
proof -
  have ne: "[pt 0, pt 1] \<noteq> []" by simp
  note t = kmeans_inertia_nonincreasing[OF ne, of 10 "[pt 0, pt 1, pt 10, pt 11]"]
  have "0 + 1 < length (inertia_trace (kmeans 10 [pt 0, pt 1, pt 10, pt 11] [pt 0, pt 1]))"
    by (simp add: four_points_run)
  with t have "inertia_trace (kmeans 10 [pt 0, pt 1, pt 10, pt 11] [pt 0, pt 1]) ! (0 + 1)
     \<le> inertia_trace (kmeans 10 [pt 0, pt 1, pt 10, pt 11] [pt 0, pt 1]) ! 0"
    by blast
  moreover have "inertia_trace (kmeans 10 [pt 0, pt 1, pt 10, pt 11] [pt 0, pt 1]) = [181, 194 / 9, 1]"
    by (simp add: four_points_run)
  moreover from t have "iterations (kmeans 10 [pt 0, pt 1, pt 10, pt 11] [pt 0, pt 1]) \<le> 10"
    by blast
  ultimately show ?thesis by blast
qed

section \<open>The DBSCAN labelling\<close>

lemma neighborhood_bound: "v \<in> set (neighborhood eps ps u) \<Longrightarrow> v < length ps"
  by (simp add: neighborhood_def)

lemma set_grow:
  "set (grow eps m ps S)
   = set S \<union> (\<Union>u \<in> {u \<in> set S. core_point eps m ps u}. set (neighborhood eps ps u))"
  by (auto simp: grow_def)

lemma grow_mono: "set S \<subseteq> set (grow eps m ps S)"
  by (auto simp: set_grow)

lemma grow_bound:
  "set S \<subseteq> {..<length ps} \<Longrightarrow> set (grow eps m ps S) \<subseteq> {..<length ps}"
  by (auto simp: set_grow dest: neighborhood_bound)

lemma iterate_bound:
  "seed < length ps \<Longrightarrow> set ((grow eps m ps ^^ t) [seed]) \<subseteq> {..<length ps}"
proof (induction t)
  case 0
  then show ?case by simp
next
  case (Suc t)
  then show ?case using grow_bound[of "(grow eps m ps ^^ t) [seed]" ps eps m] by simp
qed

lemma iterate_seed: "seed \<in> set ((grow eps m ps ^^ t) [seed])"
proof (induction t)
  case 0
  then show ?case by simp
next
  case (Suc t)
  then show ?case using grow_mono[of "(grow eps m ps ^^ t) [seed]" eps m ps] by auto
qed

lemma iterate_reachable:
  "x \<in> set ((grow eps m ps ^^ t) [seed]) \<Longrightarrow> density_reachable eps m ps seed x"
proof (induction t arbitrary: x)
  case 0
  then show ?case by (simp add: density_reachable.start)
next
  case (Suc t)
  then show ?case
    by (auto simp: set_grow intro: density_reachable.link)
qed

lemma iterate_progress:
  assumes "seed < length ps"
  shows "set (grow eps m ps ((grow eps m ps ^^ t) [seed])) = set ((grow eps m ps ^^ t) [seed])
         \<or> t + 1 \<le> card (set ((grow eps m ps ^^ t) [seed]))"
proof (induction t)
  case 0
  then show ?case by simp
next
  case (Suc t)
  let ?S = "(grow eps m ps ^^ t) [seed]"
  let ?S' = "grow eps m ps ?S"
  show ?case
  proof (cases "set ?S' = set ?S")
    case True
    then have "set (grow eps m ps ?S') = set ?S'"
      by (simp add: set_grow)
    then show ?thesis by simp
  next
    case False
    with Suc have c: "t + 1 \<le> card (set ?S)" by blast
    have "set ?S \<subset> set ?S'" using False grow_mono[of ?S eps m ps] by blast
    then have "card (set ?S) < card (set ?S')" by (simp add: psubset_card_mono)
    with c show ?thesis by simp
  qed
qed

lemma reach_closed:
  assumes "seed < length ps"
  shows "set (grow eps m ps (reach eps m ps seed)) = set (reach eps m ps seed)"
proof -
  let ?S = "(grow eps m ps ^^ length ps) [seed]"
  have "set ?S \<subseteq> {..<length ps}" using iterate_bound[OF assms] .
  then have "card (set ?S) \<le> card {..<length ps}" by (intro card_mono) auto
  then have "\<not> length ps + 1 \<le> card (set ?S)" by simp
  with iterate_progress[OF assms, of eps m "length ps"] show ?thesis
    by (simp add: reach_def)
qed

lemma reach_neighbours:
  assumes "seed < length ps" and "u \<in> set (reach eps m ps seed)" and "core_point eps m ps u"
    and "v \<in> set (neighborhood eps ps u)"
  shows "v \<in> set (reach eps m ps seed)"
proof -
  have "v \<in> set (grow eps m ps (reach eps m ps seed))"
    using assms(2-4) by (auto simp: set_grow)
  then show ?thesis using reach_closed[OF assms(1)] by simp
qed

lemma reach_seed: "seed \<in> set (reach eps m ps seed)"
  by (simp add: reach_def iterate_seed)

lemma reach_reachable: "x \<in> set (reach eps m ps seed) \<Longrightarrow> density_reachable eps m ps seed x"
  by (auto simp: reach_def intro: iterate_reachable)

lemma label_cluster_length: "length (label_cluster R c ls) = length ls"
  by (simp add: label_cluster_def)

lemma label_cluster_nth:
  "x < length ls \<Longrightarrow>
     label_cluster R c ls ! x = (if ls ! x = noise \<and> x \<in> set R then c else ls ! x)"
  by (simp add: label_cluster_def)

lemma invariant_initially: "dbscan_invariant eps m ps (replicate (length ps) noise) 0"
  by (auto simp: dbscan_invariant_def)

lemma invariant_expand:
  assumes inv: "dbscan_invariant eps m ps ls c"
    and i: "i < length ps" "ls ! i = noise" "core_point eps m ps i"
  shows "dbscan_invariant eps m ps (label_cluster (reach eps m ps i) c ls) (c + 1)"
proof -
  let ?R = "reach eps m ps i"
  let ?ls' = "label_cluster ?R c ls"
  have len: "length ls = length ps" and c0: "0 \<le> c"
    and range: "\<forall>x<length ps. ls ! x = noise \<or> (0 \<le> ls ! x \<and> ls ! x < c)"
    and seeds: "\<forall>l. 0 \<le> l \<and> l < c \<longrightarrow>
        (\<exists>s<length ps. core_point eps m ps s \<and> ls ! s = l \<and>
           (\<forall>x<length ps. ls ! x = l \<longrightarrow> density_reachable eps m ps s x))"
    and closed: "\<forall>u<length ps. core_point eps m ps u \<and> ls ! u \<noteq> noise \<longrightarrow>
        (\<forall>v \<in> set (neighborhood eps ps u). ls ! v \<noteq> noise)"
    using inv by (simp_all add: dbscan_invariant_def)
  have nth: "?ls' ! x = (if ls ! x = noise \<and> x \<in> set ?R then c else ls ! x)" if "x < length ps" for x
    using label_cluster_nth[of x ls ?R c] that len by simp
  have cn: "c \<noteq> noise" using c0 by (simp add: noise_def)
  have old: "ls ! x \<noteq> c" if "x < length ps" for x
    using range[rule_format, OF that] cn by auto
  have 1: "length ?ls' = length ps" by (simp add: label_cluster_length len)
  have 2: "\<forall>x<length ps. ?ls' ! x = noise \<or> (0 \<le> ?ls' ! x \<and> ?ls' ! x < c + 1)"
  proof (intro allI impI)
    fix x assume x: "x < length ps"
    show "?ls' ! x = noise \<or> (0 \<le> ?ls' ! x \<and> ?ls' ! x < c + 1)"
      using range[rule_format, OF x] c0 by (auto simp: nth[OF x])
  qed
  have 3: "\<forall>l. 0 \<le> l \<and> l < c + 1 \<longrightarrow>
        (\<exists>s<length ps. core_point eps m ps s \<and> ?ls' ! s = l \<and>
           (\<forall>x<length ps. ?ls' ! x = l \<longrightarrow> density_reachable eps m ps s x))"
  proof (intro allI impI)
    fix l assume l: "0 \<le> l \<and> l < c + 1"
    show "\<exists>s<length ps. core_point eps m ps s \<and> ?ls' ! s = l \<and>
           (\<forall>x<length ps. ?ls' ! x = l \<longrightarrow> density_reachable eps m ps s x)"
    proof (cases "l = c")
      case True
      have "?ls' ! i = c" using i reach_seed[of i eps m ps] by (simp add: nth)
      moreover have "density_reachable eps m ps i x" if "x < length ps" "?ls' ! x = c" for x
      proof -
        have "x \<in> set ?R" using that old[of x] by (auto simp: nth split: if_splits)
        then show ?thesis by (rule reach_reachable)
      qed
      ultimately show ?thesis using i True by blast
    next
      case False
      with l have "0 \<le> l \<and> l < c" by simp
      with seeds obtain s where s: "s < length ps" "core_point eps m ps s" "ls ! s = l"
        "\<forall>x<length ps. ls ! x = l \<longrightarrow> density_reachable eps m ps s x"
        by blast
      have ln: "l \<noteq> noise" using l by (simp add: noise_def)
      have "?ls' ! s = l" using s ln by (simp add: nth)
      moreover have "density_reachable eps m ps s x" if "x < length ps" "?ls' ! x = l" for x
      proof -
        have "ls ! x = l" using that False by (auto simp: nth split: if_splits)
        with s that show ?thesis by blast
      qed
      ultimately show ?thesis using s by blast
    qed
  qed
  have 4: "\<forall>u<length ps. core_point eps m ps u \<and> ?ls' ! u \<noteq> noise \<longrightarrow>
        (\<forall>v \<in> set (neighborhood eps ps u). ?ls' ! v \<noteq> noise)"
  proof (intro allI impI ballI)
    fix u v assume u: "u < length ps" "core_point eps m ps u \<and> ?ls' ! u \<noteq> noise"
      and v: "v \<in> set (neighborhood eps ps u)"
    have vb: "v < length ps" using v by (rule neighborhood_bound)
    show "?ls' ! v \<noteq> noise"
    proof (cases "ls ! u = noise")
      case True
      with u have "u \<in> set ?R" by (auto simp: nth split: if_splits)
      then have "v \<in> set ?R" using reach_neighbours[OF i(1), of u eps m v] u v by blast
      then show ?thesis using cn by (simp add: nth[OF vb])
    next
      case False
      with closed u v have "ls ! v \<noteq> noise" by blast
      then show ?thesis by (simp add: nth[OF vb])
    qed
  qed
  from 1 2 3 4 c0 show ?thesis by (simp add: dbscan_invariant_def)
qed

lemma dbscan_loop_invariant:
  assumes "dbscan_invariant eps m ps ls c" and "set rest \<subseteq> {..<length ps}"
  shows "\<exists>c'. dbscan_invariant eps m ps (dbscan_loop eps m ps rest ls c) c' \<and>
           (\<forall>x<length ps. ls ! x \<noteq> noise \<longrightarrow> dbscan_loop eps m ps rest ls c ! x = ls ! x) \<and>
           (\<forall>i \<in> set rest. core_point eps m ps i \<longrightarrow> dbscan_loop eps m ps rest ls c ! i \<noteq> noise)"
  using assms
proof (induction rest arbitrary: ls c)
  case Nil
  then show ?case by auto
next
  case (Cons i rest)
  have i: "i < length ps" and rest: "set rest \<subseteq> {..<length ps}" using Cons.prems(2) by auto
  show ?case
  proof (cases "ls ! i \<noteq> noise \<or> \<not> core_point eps m ps i")
    case True
    then have e: "dbscan_loop eps m ps (i # rest) ls c = dbscan_loop eps m ps rest ls c" by simp
    from Cons.IH[OF Cons.prems(1) rest] obtain c' where
      IH: "dbscan_invariant eps m ps (dbscan_loop eps m ps rest ls c) c'"
        "\<forall>x<length ps. ls ! x \<noteq> noise \<longrightarrow> dbscan_loop eps m ps rest ls c ! x = ls ! x"
        "\<forall>i \<in> set rest. core_point eps m ps i \<longrightarrow> dbscan_loop eps m ps rest ls c ! i \<noteq> noise"
      by blast
    have "core_point eps m ps i \<longrightarrow> dbscan_loop eps m ps rest ls c ! i \<noteq> noise"
      using True IH(2) i by auto
    with IH show ?thesis unfolding e by auto
  next
    case False
    let ?ls1 = "label_cluster (reach eps m ps i) c ls"
    have e: "dbscan_loop eps m ps (i # rest) ls c = dbscan_loop eps m ps rest ?ls1 (c + 1)"
      using False by simp
    have inv1: "dbscan_invariant eps m ps ?ls1 (c + 1)"
      using invariant_expand[OF Cons.prems(1) i] False by simp
    have len: "length ls = length ps" using Cons.prems(1) by (simp add: dbscan_invariant_def)
    have c0: "0 \<le> c" using Cons.prems(1) by (simp add: dbscan_invariant_def)
    have keep: "?ls1 ! x = ls ! x" if "x < length ps" "ls ! x \<noteq> noise" for x
      using that len by (simp add: label_cluster_nth)
    have seed: "?ls1 ! i \<noteq> noise"
      using i len False reach_seed[of i eps m ps] c0 by (simp add: label_cluster_nth noise_def)
    from Cons.IH[OF inv1 rest] obtain c' where
      IH: "dbscan_invariant eps m ps (dbscan_loop eps m ps rest ?ls1 (c + 1)) c'"
        "\<forall>x<length ps. ?ls1 ! x \<noteq> noise \<longrightarrow> dbscan_loop eps m ps rest ?ls1 (c + 1) ! x = ?ls1 ! x"
        "\<forall>i \<in> set rest. core_point eps m ps i \<longrightarrow> dbscan_loop eps m ps rest ?ls1 (c + 1) ! i \<noteq> noise"
      by blast
    have a: "\<forall>x<length ps. ls ! x \<noteq> noise \<longrightarrow> dbscan_loop eps m ps rest ?ls1 (c + 1) ! x = ls ! x"
      using IH(2) keep by auto
    have b: "dbscan_loop eps m ps rest ?ls1 (c + 1) ! i \<noteq> noise"
      using IH(2) seed i by auto
    from IH(1) a b IH(3) show ?thesis unfolding e by auto
  qed
qed

lemma euclidean_le_eps: "0 \<le> e \<Longrightarrow> euclidean p q \<le> e \<longleftrightarrow> sqdist p q \<le> e\<^sup>2"
  unfolding euclidean_def by (metis abs_of_nonneg real_sqrt_abs real_sqrt_le_iff)

lemma two_groups_labels: "dbscan 2 2 two_groups = [0, 0, 0, 1, 1, 1]"
  by (simp add: dbscan_def two_groups_def pt2_def neighborhood_def core_point_def grow_def
      reach_def noise_def label_cluster_def euclidean_le_eps sqdist_def upt_rec eval_nat_numeral
      power2_eq_square)

text \<open>
  C9. In the labels of the DBSCAN clusterer, a point labelled noise (-1) has fewer than
  min-samples neighbours within eps and lies in the eps-neighborhood of no core point;
  a point with a cluster label is reachable, by a chain of eps-neighborhoods of core
  points, from a core point that has the same label; and the cluster labels are
  contiguous non-negative integers: every integer from 0 up to a label in use is in use.
\<close>

theorem dbscan_labelling:
  "noise = -1 \<and> length (dbscan eps m ps) = length ps \<and>
   (\<forall>x<length ps. dbscan eps m ps ! x = noise \<longrightarrow>
       length (neighborhood eps ps x) < m \<and>
       (\<forall>u<length ps. core_point eps m ps u \<longrightarrow> x \<notin> set (neighborhood eps ps u))) \<and>
   (\<forall>x<length ps. dbscan eps m ps ! x \<noteq> noise \<longrightarrow>
       (\<exists>s<length ps. core_point eps m ps s \<and> dbscan eps m ps ! s = dbscan eps m ps ! x \<and>
            density_reachable eps m ps s x)) \<and>
   (\<forall>x<length ps. dbscan eps m ps ! x = noise \<or> 0 \<le> dbscan eps m ps ! x) \<and>
   (\<forall>x<length ps. \<forall>l. 0 \<le> l \<and> l \<le> dbscan eps m ps ! x \<longrightarrow> l \<in> set (dbscan eps m ps))"
proof -
  let ?L = "dbscan eps m ps"
  have "set [0..<length ps] \<subseteq> {..<length ps}" by auto
  from dbscan_loop_invariant[OF invariant_initially this, of eps m]
  obtain c where inv: "dbscan_invariant eps m ps ?L c"
    and all: "\<forall>i \<in> set [0..<length ps]. core_point eps m ps i \<longrightarrow> ?L ! i \<noteq> noise"
    unfolding dbscan_def by blast
  have len: "length ?L = length ps" and c0: "0 \<le> c"
    and range: "\<forall>x<length ps. ?L ! x = noise \<or> (0 \<le> ?L ! x \<and> ?L ! x < c)"
    and seeds: "\<forall>l. 0 \<le> l \<and> l < c \<longrightarrow>
        (\<exists>s<length ps. core_point eps m ps s \<and> ?L ! s = l \<and>
           (\<forall>x<length ps. ?L ! x = l \<longrightarrow> density_reachable eps m ps s x))"
    and closed: "\<forall>u<length ps. core_point eps m ps u \<and> ?L ! u \<noteq> noise \<longrightarrow>
        (\<forall>v \<in> set (neighborhood eps ps u). ?L ! v \<noteq> noise)"
    using inv by (simp_all add: dbscan_invariant_def)
  have core_labelled: "?L ! u \<noteq> noise" if "u < length ps" "core_point eps m ps u" for u
    using all that by simp
  have 1: "\<forall>x<length ps. ?L ! x = noise \<longrightarrow>
       length (neighborhood eps ps x) < m \<and>
       (\<forall>u<length ps. core_point eps m ps u \<longrightarrow> x \<notin> set (neighborhood eps ps u))"
  proof (intro allI impI conjI)
    fix x assume x: "x < length ps" "?L ! x = noise"
    then have "\<not> core_point eps m ps x" using core_labelled[of x] by blast
    then show "length (neighborhood eps ps x) < m" by (simp add: core_point_def)
    fix u assume u: "u < length ps" "core_point eps m ps u"
    then have "\<forall>v \<in> set (neighborhood eps ps u). ?L ! v \<noteq> noise"
      using closed core_labelled[of u] by blast
    with x show "x \<notin> set (neighborhood eps ps u)" by blast
  qed
  have 2: "\<forall>x<length ps. ?L ! x \<noteq> noise \<longrightarrow>
       (\<exists>s<length ps. core_point eps m ps s \<and> ?L ! s = ?L ! x \<and> density_reachable eps m ps s x)"
  proof (intro allI impI)
    fix x assume x: "x < length ps" "?L ! x \<noteq> noise"
    then have "0 \<le> ?L ! x \<and> ?L ! x < c" using range by blast
    with seeds obtain s where "s < length ps" "core_point eps m ps s" "?L ! s = ?L ! x"
      "\<forall>y<length ps. ?L ! y = ?L ! x \<longrightarrow> density_reachable eps m ps s y"
      by blast
    with x show "\<exists>s<length ps. core_point eps m ps s \<and> ?L ! s = ?L ! x \<and>
        density_reachable eps m ps s x"
      by blast
  qed
  have 3: "\<forall>x<length ps. ?L ! x = noise \<or> 0 \<le> ?L ! x" using range by blast
  have 4: "\<forall>x<length ps. \<forall>l. 0 \<le> l \<and> l \<le> ?L ! x \<longrightarrow> l \<in> set ?L"
  proof (intro allI impI)
    fix x l assume x: "x < length ps" and l: "0 \<le> l \<and> l \<le> ?L ! x"
    then have "?L ! x \<noteq> noise" by (auto simp: noise_def)
    then have "?L ! x < c" using range x by blast
    with l have "0 \<le> l \<and> l < c" by simp
    with seeds obtain s where "s < length ps" "?L ! s = l" by blast
    then show "l \<in> set ?L" using len by (metis nth_mem)
  qed
  from 1 2 3 4 len show ?thesis by (simp add: noise_def)
qed

theorem dbscan_labelling_witness:
  "dbscan 2 2 two_groups = [0, 0, 0, 1, 1, 1] \<and>
   (\<exists>s<length two_groups. core_point 2 2 two_groups s \<and>
       dbscan 2 2 two_groups ! s = dbscan 2 2 two_groups ! 4 \<and>
       density_reachable 2 2 two_groups s 4)"
proof -
  have "4 < length two_groups" by (simp add: two_groups_def)
  moreover have "dbscan 2 2 two_groups ! 4 \<noteq> noise"
    by (simp add: two_groups_labels noise_def)
  ultimately have "\<exists>s<length two_groups. core_point 2 2 two_groups s \<and>
       dbscan 2 2 two_groups ! s = dbscan 2 2 two_groups ! 4 \<and>
       density_reachable 2 2 two_groups s 4"
    using dbscan_labelling[of 2 2 two_groups] by blast
  with two_groups_labels show ?thesis by blast
qed

end
